theory Spec2Isabelle
  imports Main
begin

text \<open>
  The job orchestration of the coloring studio (App.tsx): the retrying executor
  \<open>generateImageSafe\<close>, the replay of failed jobs, the bounded concurrency runner
  \<open>runConcurrentTasks\<close> and the batch colorize and decolorize handlers, over the durable
  storage of storageService.ts.

  The component state is a record that every operation takes and returns. What an operation
  does to the outside (generation calls, waits, storage requests) is also appended to the
  \<open>effects\<close> of the state, so that calls, waits and writes can be counted and ordered.
  What the outside does to an operation (the outcome of each generation call, the value of
  the cancellation flag at each check, clock and random values) is an argument. The runner is
  a step function over the events that can happen while it is suspended, and a run is the
  fold of that function over a schedule of events; a property of all runs is a property of
  all schedules.
\<close>

section \<open>Data model (types.ts)\<close>

datatype PrintSize = SQUARE_8x8 | LETTER | PORTRAIT_8x10 | PORTRAIT_6x9

datatype Resolution = Res1k | Res2k | Res4k

datatype ColorMode = BW | Color

datatype FrameStyle = HAND_DRAWN | SKETCHER | SIMPLE | DOUBLE | ORNATE

datatype TransformType = Colorize | Decolorize

type_synonym ImageStyle = string

record GeneratedImage =
  img_id :: string
  img_url :: string
  img_prompt :: string
  img_timestamp :: nat
  img_resolution :: Resolution
  img_printSize :: PrintSize

text \<open>
  The eleven positional parameters of \<open>generateImageSafe\<close>. \<open>referenceImages\<close> is an
  optional parameter (\<open>None\<close> is \<open>undefined\<close>); its default \<open>[]\<close> is applied inside the
  function, as in the source.
\<close>

record JobArgs =
  prompt :: string
  printSize :: PrintSize
  seed :: int
  style :: ImageStyle
  colorMode :: ColorMode
  resolution :: Resolution
  useFrame :: bool
  frameStyle :: FrameStyle
  referenceImages :: "string list option"
  isEditing :: bool
  transformType :: "TransformType option"

text \<open>\<open>FailedJob.jobConfig\<close>: the same fields, frozen, plus the palette id.\<close>

record JobConfig =
  cfg_prompt :: string
  cfg_printSize :: PrintSize
  cfg_seed :: int
  cfg_style :: ImageStyle
  cfg_colorMode :: ColorMode
  cfg_resolution :: Resolution
  cfg_useFrame :: bool
  cfg_frameStyle :: FrameStyle
  cfg_referenceImages :: "string list option"
  cfg_isEditing :: bool
  cfg_transformType :: "TransformType option"
  cfg_selectedPaletteId :: "string option"

record FailedJob =
  job_id :: string
  job_timestamp :: nat
  job_error :: string
  jobConfig :: JobConfig

record GenerationConfig =
  config_prompt :: string
  config_style :: ImageStyle
  config_printSize :: PrintSize
  config_colorMode :: ColorMode
  config_resolution :: Resolution
  config_batchCount :: nat
  config_useFrame :: bool
  config_frameStyle :: FrameStyle
  config_selectedPaletteId :: "string option"

datatype LogType = Info | Success | Error | Warning

text \<open>A log entry; the wall-clock display string of the source's entry is left out.\<close>

record LogEntry =
  message :: string
  logType :: LogType

section \<open>The outside world\<close>

text \<open>
  What \<open>generateSingleImage\<close> resolves to (\<open>None\<close> is \<open>null\<close>) or throws: an
  \<open>Error\<close> object with its message, a string, or any other value with its \<open>String(err)\<close>.
\<close>

record ImageResult =
  res_url :: string
  res_usedModel :: string

datatype Thrown = ErrorObject string | StringValue string | OtherValue string

datatype GenOutcome = Resolved "ImageResult option" | Threw Thrown

text \<open>
  Everything one job reads from outside while it runs: the outcome of its \<open>k\<close>-th call of
  \<open>generateSingleImage\<close> (counted from 0), the value of \<open>stopGenerationRef.current\<close> it
  reads at the top of its \<open>k\<close>-th attempt, whether \<open>window.aistudio\<close> exists, and the values
  \<open>Date.now()\<close>, \<open>Math.floor(Math.random() * 1000)\<close>,
  \<open>Math.floor(Math.random() * 1000000000)\<close> and
  \<open>Math.random().toString(36).substring(7)\<close> give it.
\<close>

record Env =
  generateSingleImage :: "nat \<Rightarrow> GenOutcome"
  stopAt :: "nat \<Rightarrow> bool"
  aistudio :: bool
  dateNow :: nat
  random1000 :: nat
  randomSeed :: int
  randomId :: string

text \<open>
  The calls that leave the component and the two setters of the re-authentication prompt,
  in the order they happen. The generation call is recorded with the API key and the eleven
  job parameters it passes through; the palette and the style instructions it also passes
  are looked up from the ambient configuration and are not recorded.
\<close>

datatype Effect =
    GenerateSingleImage string JobArgs
  | Delay nat
  | SaveFailedJobToDB FailedJob
  | SaveImageToDB GeneratedImage
  | DeleteFailedJobFromDB string
  | OpenSelectKey
  | SetHasApiKey bool
  | SetError string

section \<open>Component state (App.tsx) and durable storage (storageService.ts)\<close>

text \<open>
  The two object stores are keyed by \<open>id\<close>: \<open>put\<close> overwrites, \<open>delete\<close> removes.
  Storage requests are taken to succeed.
\<close>

record App =
  hasApiKey :: bool
  manualApiKey :: string
  isGenerating :: bool
  images :: "GeneratedImage list"
  failedJobs :: "FailedJob list"
  selectedIds :: "string set"
  error :: "string option"
  logs :: "LogEntry list"
  config :: GenerationConfig
  db_images :: "string \<rightharpoonup> GeneratedImage"
  db_failed_jobs :: "string \<rightharpoonup> FailedJob"
  effects :: "Effect list"

definition emit :: "Effect \<Rightarrow> App \<Rightarrow> App" where
  "emit e s = s\<lparr>effects := effects s @ [e]\<rparr>"

definition addLog :: "string \<Rightarrow> LogType \<Rightarrow> App \<Rightarrow> App" where
  "addLog msg ty s = s\<lparr>logs := \<lparr>message = msg, logType = ty\<rparr> # logs s\<rparr>"

definition delay :: "nat \<Rightarrow> App \<Rightarrow> App" where
  "delay ms s = emit (Delay ms) s"

definition saveFailedJobToDB :: "FailedJob \<Rightarrow> App \<Rightarrow> App" where
  "saveFailedJobToDB job s =
     emit (SaveFailedJobToDB job) (s\<lparr>db_failed_jobs := (db_failed_jobs s)(job_id job \<mapsto> job)\<rparr>)"

definition deleteFailedJobFromDB :: "string \<Rightarrow> App \<Rightarrow> App" where
  "deleteFailedJobFromDB i s =
     emit (DeleteFailedJobFromDB i) (s\<lparr>db_failed_jobs := (db_failed_jobs s)(i := None)\<rparr>)"

definition saveImageToDB :: "GeneratedImage \<Rightarrow> App \<Rightarrow> App" where
  "saveImageToDB img s =
     emit (SaveImageToDB img) (s\<lparr>db_images := (db_images s)(img_id img \<mapsto> img)\<rparr>)"

definition setHasApiKey :: "bool \<Rightarrow> App \<Rightarrow> App" where
  "setHasApiKey b s = emit (SetHasApiKey b) (s\<lparr>hasApiKey := b\<rparr>)"

definition setError :: "string \<Rightarrow> App \<Rightarrow> App" where
  "setError msg s = emit (SetError msg) (s\<lparr>error := Some msg\<rparr>)"

definition addImage :: "GeneratedImage \<Rightarrow> App \<Rightarrow> App" where
  "addImage newImage s = (let s1 = saveImageToDB newImage s in s1\<lparr>images := newImage # images s1\<rparr>)"

section \<open>Strings\<close>

fun startsWith :: "string \<Rightarrow> string \<Rightarrow> bool" where
  "startsWith s [] = True"
| "startsWith [] (c # cs) = False"
| "startsWith (d # ds) (c # cs) = (d = c \<and> startsWith ds cs)"

fun includesStr :: "string \<Rightarrow> string \<Rightarrow> bool" where
  "includesStr [] sub = (sub = [])"
| "includesStr (d # ds) sub = (startsWith (d # ds) sub \<or> includesStr ds sub)"

definition digit :: "nat \<Rightarrow> char" where
  "digit d = ''0123456789'' ! d"

fun showNat :: "nat \<Rightarrow> string" where
  "showNat n = (if n < 10 then [digit n] else showNat (n div 10) @ [digit (n mod 10)])"

declare showNat.simps [simp del]

section \<open>The retrying job executor (generateImageSafe)\<close>

definition MAX_RETRIES :: nat where
  "MAX_RETRIES = 3"

definition errorMessage :: "Thrown \<Rightarrow> string" where
  "errorMessage err = (case err of ErrorObject m \<Rightarrow> m | StringValue m \<Rightarrow> m | OtherValue m \<Rightarrow> m)"

definition actionLabel :: "JobArgs \<Rightarrow> string" where
  "actionLabel a =
     (let l0 = (if isEditing a then ''Editing'' else ''Generating'');
          l1 = (if transformType a = Some Colorize then ''Colorizing'' else l0)
      in if transformType a = Some Decolorize then ''Decolorizing'' else l1)"

definition referenceImagesOf :: "JobArgs \<Rightarrow> string list" where
  "referenceImagesOf a = (case referenceImages a of None \<Rightarrow> [] | Some rs \<Rightarrow> rs)"

text \<open>The try block up to the point where the generation call is awaited.\<close>

definition startAttempt :: "JobArgs \<Rightarrow> nat \<Rightarrow> App \<Rightarrow> App" where
  "startAttempt a retries s =
     (let s1 = (if retries = 0 then addLog (actionLabel a @ ''...'') Info s
                else addLog (''Retry '' @ showNat retries @ ''/'' @ showNat MAX_RETRIES @ '': ''
                             @ actionLabel a @ ''...'') Warning s)
      in emit (GenerateSingleImage (manualApiKey s1)
                 (a\<lparr>referenceImages := Some (referenceImagesOf a)\<rparr>)) s1)"

definition failedJobOf :: "Env \<Rightarrow> JobArgs \<Rightarrow> string \<Rightarrow> string option \<Rightarrow> FailedJob" where
  "failedJobOf env a errorMsg paletteId =
     \<lparr>job_id = ''fail-'' @ showNat (dateNow env) @ ''-'' @ showNat (random1000 env),
      job_timestamp = dateNow env,
      job_error = errorMsg,
      jobConfig = \<lparr>cfg_prompt = prompt a, cfg_printSize = printSize a, cfg_seed = seed a,
        cfg_style = style a, cfg_colorMode = colorMode a, cfg_resolution = resolution a,
        cfg_useFrame = useFrame a, cfg_frameStyle = frameStyle a,
        cfg_referenceImages = Some (referenceImagesOf a), cfg_isEditing = isEditing a,
        cfg_transformType = transformType a,
        cfg_selectedPaletteId = paletteId\<rparr>\<rparr>"

text \<open>The block under the comment SAVE FAILED JOB TO PERSISTENT DB.\<close>

definition saveFailed :: "Env \<Rightarrow> JobArgs \<Rightarrow> nat \<Rightarrow> string \<Rightarrow> App \<Rightarrow> App" where
  "saveFailed env a retries errorMsg s =
     (if retries \<ge> MAX_RETRIES \<or> \<not> includesStr errorMsg ''429'' then
        (let failedJob = failedJobOf env a errorMsg (config_selectedPaletteId (config s));
             s1 = saveFailedJobToDB failedJob s;
             s2 = s1\<lparr>failedJobs := failedJob # failedJobs s1\<rparr>
         in addLog ''Saved failed job to Retry Queue.'' Warning s2)
      else s)"

text \<open>
  The permission branch of the catch block; \<open>openSelectKey\<close> is taken to resolve.
\<close>

definition permissionPrompt :: "Env \<Rightarrow> string \<Rightarrow> App \<Rightarrow> App" where
  "permissionPrompt env errorMsg s =
     (if includesStr errorMsg ''Requested entity was not found'' \<or> includesStr errorMsg ''403''
         \<or> includesStr errorMsg ''API key not valid'' then
        (let s1 = setHasApiKey False s;
             s2 = setError ''API Key Invalid or Permission Denied. Please re-enter.'' s1
         in if manualApiKey s2 = [] \<and> aistudio env
            then setHasApiKey True (emit OpenSelectKey s2) else s2)
      else s)"

text \<open>
  The catch block. \<open>Inl\<close> is \<open>continue\<close> (the caller increments \<open>retries\<close>), \<open>Inr\<close> is
  the \<open>break\<close> at its end.
\<close>

definition onError :: "Env \<Rightarrow> JobArgs \<Rightarrow> nat \<Rightarrow> Thrown \<Rightarrow> App \<Rightarrow> App + App" where
  "onError env a retries err s =
     (let errorMsg = errorMessage err in
      if includesStr errorMsg ''429'' \<or> includesStr errorMsg ''Too many requests'' then
        (if retries < MAX_RETRIES then
           (let waitTime = 10000 * (retries + 1) in
            Inl (delay waitTime
                  (addLog (''Rate Limited (429). Waiting '' @ showNat (waitTime div 1000) @ ''s...'')
                     Warning s)))
         else
           Inr (saveFailed env a retries errorMsg
                 (addLog (''Failed after '' @ showNat MAX_RETRIES @ '' retries due to rate limits.'')
                    Error s)))
      else
        Inr (saveFailed env a retries errorMsg
              (permissionPrompt env errorMsg
                (addLog (''Generation failed: '' @ errorMsg) Error s))))"

record Generated =
  content :: string
  usedModel :: string

function generateImageSafe_loop ::
  "Env \<Rightarrow> JobArgs \<Rightarrow> nat \<Rightarrow> App \<Rightarrow> Generated option \<times> App" where
  "generateImageSafe_loop env a retries s =
     (if retries \<le> MAX_RETRIES then
        (if stopAt env retries then (None, s)
         else
           (case generateSingleImage env retries of
              Resolved (Some result) \<Rightarrow>
                (Some \<lparr>content = res_url result, usedModel = res_usedModel result\<rparr>,
                 startAttempt a retries s)
            | Resolved None \<Rightarrow> (None, startAttempt a retries s)
            | Threw err \<Rightarrow>
                (case onError env a retries err (startAttempt a retries s) of
                   Inl s' \<Rightarrow> generateImageSafe_loop env a (retries + 1) s'
                 | Inr s' \<Rightarrow> (None, s'))))
      else (None, s))"
  by pat_completeness auto
termination
  by (relation "measure (\<lambda>(env, a, retries, s). MAX_RETRIES + 1 - retries)") auto

declare generateImageSafe_loop.simps [simp del]

definition generateImageSafe :: "Env \<Rightarrow> JobArgs \<Rightarrow> App \<Rightarrow> Generated option \<times> App" where
  "generateImageSafe env a s = generateImageSafe_loop env a 0 s"


section \<open>Replaying failed jobs (handleRetryJob, handleRetryAllFailed)\<close>

definition argsOfConfig :: "JobConfig \<Rightarrow> JobArgs" where
  "argsOfConfig cfg =
     \<lparr>prompt = cfg_prompt cfg, printSize = cfg_printSize cfg, seed = cfg_seed cfg,
      style = cfg_style cfg, colorMode = cfg_colorMode cfg, resolution = cfg_resolution cfg,
      useFrame = cfg_useFrame cfg, frameStyle = cfg_frameStyle cfg,
      referenceImages = cfg_referenceImages cfg, isEditing = cfg_isEditing cfg,
      transformType = cfg_transformType cfg\<rparr>"

text \<open>
  \<open>handleRetryJob\<close> writes \<open>false\<close> to \<open>stopGenerationRef.current\<close> and calls
  \<open>generateImageSafe\<close> in the same synchronous block, so the first attempt reads
  \<open>false\<close>. With storage requests succeeding nothing in the try block throws, so the
  handler's catch block (which only logs) is never entered.
\<close>

definition handleRetryJob :: "Env \<Rightarrow> FailedJob \<Rightarrow> App \<Rightarrow> App" where
  "handleRetryJob env job s =
     (if \<not> hasApiKey s then s
      else
        (let s1 = addLog (''Retrying job: '' @ take 20 (cfg_prompt (jobConfig job)) @ ''...'') Info
                    (s\<lparr>isGenerating := True\<rparr>);
             cfg = jobConfig job;
             (result, s2) = generateImageSafe (env\<lparr>stopAt := (stopAt env)(0 := False)\<rparr>)
                              (argsOfConfig cfg) s1;
             s3 = (case result of
                     None \<Rightarrow> s2
                   | Some r \<Rightarrow>
                       (let s4 = addImage \<lparr>img_id = randomId env, img_url = content r,
                                   img_prompt = cfg_prompt cfg, img_timestamp = dateNow env,
                                   img_resolution = cfg_resolution cfg,
                                   img_printSize = cfg_printSize cfg\<rparr> s2;
                            s5 = deleteFailedJobFromDB (job_id job) s4;
                            s6 = s5\<lparr>failedJobs := filter (\<lambda>j. job_id j \<noteq> job_id job) (failedJobs s5)\<rparr>
                        in addLog ''Retry successful. Job removed from queue.'' Success s6))
         in s3\<lparr>isGenerating := False\<rparr>))"

text \<open>
  A task thunk run in one piece, with no other task between its steps. It takes the value of
  \<open>stopGenerationRef.current\<close> at the moment it is invoked; the first check inside
  \<open>generateImageSafe\<close> is in the same synchronous block and reads the same value.
\<close>

text \<open>The thunk \<open>handleRetryAllFailed\<close> builds for one failed job.\<close>

definition retryAllTask :: "Env \<Rightarrow> FailedJob \<Rightarrow> bool \<Rightarrow> App \<Rightarrow> App" where
  "retryAllTask env job stopped s =
     (if stopped then s
      else
        (let cfg = jobConfig job;
             (result, s1) = generateImageSafe (env\<lparr>stopAt := (stopAt env)(0 := stopped)\<rparr>)
                              (argsOfConfig cfg) s
         in case result of
              None \<Rightarrow> s1
            | Some r \<Rightarrow>
                deleteFailedJobFromDB (job_id job)
                  (addImage \<lparr>img_id = randomId env, img_url = content r,
                     img_prompt = cfg_prompt cfg, img_timestamp = dateNow env,
                     img_resolution = cfg_resolution cfg,
                     img_printSize = cfg_printSize cfg\<rparr> s1)))"

section \<open>Batch colorize and decolorize thunks\<close>

definition colorizeTask :: "Env \<Rightarrow> GeneratedImage \<Rightarrow> bool \<Rightarrow> App \<Rightarrow> App" where
  "colorizeTask env targetImg stopped s =
     (if stopped then s
      else
        (let (result, s1) = generateImageSafe (env\<lparr>stopAt := (stopAt env)(0 := stopped)\<rparr>)
               \<lparr>prompt = img_prompt targetImg, printSize = config_printSize (config s),
                seed = randomSeed env, style = config_style (config s), colorMode = Color,
                resolution = img_resolution targetImg, useFrame = config_useFrame (config s),
                frameStyle = config_frameStyle (config s),
                referenceImages = Some [img_url targetImg], isEditing = True,
                transformType = Some Colorize\<rparr> s
         in case result of
              None \<Rightarrow> s1
            | Some r \<Rightarrow>
                addImage \<lparr>img_id = randomId env, img_url = content r,
                  img_prompt = ''Colorized: '' @ img_prompt targetImg, img_timestamp = dateNow env,
                  img_resolution = img_resolution targetImg,
                  img_printSize = img_printSize targetImg\<rparr> s1))"

definition decolorizeTask :: "Env \<Rightarrow> GeneratedImage \<Rightarrow> bool \<Rightarrow> App \<Rightarrow> App" where
  "decolorizeTask env targetImg stopped s =
     (if stopped then s
      else
        (let (result, s1) = generateImageSafe (env\<lparr>stopAt := (stopAt env)(0 := stopped)\<rparr>)
               \<lparr>prompt = img_prompt targetImg, printSize = config_printSize (config s),
                seed = randomSeed env, style = config_style (config s), colorMode = BW,
                resolution = img_resolution targetImg, useFrame = config_useFrame (config s),
                frameStyle = config_frameStyle (config s),
                referenceImages = Some [img_url targetImg], isEditing = True,
                transformType = Some Decolorize\<rparr> s
         in case result of
              None \<Rightarrow> s1
            | Some r \<Rightarrow>
                addImage \<lparr>img_id = randomId env, img_url = content r,
                  img_prompt = ''Line Art: '' @ img_prompt targetImg, img_timestamp = dateNow env,
                  img_resolution = img_resolution targetImg,
                  img_printSize = img_printSize targetImg\<rparr> s1))"

section \<open>Tasks in flight together\<close>

text \<open>
  Under the runner several tasks are in flight at once, and what they do to the component
  state interleaves at their \<open>await\<close>s. A started task is at its end, or suspended at an
  \<open>await\<close> with the code that follows it: when the awaited promise resolves, that code
  runs with the flag and the component state of that moment, up to the next \<open>await\<close> or
  to the end. A task thunk is such code from its invocation on.
\<close>

datatype Proc = Done | Await "bool \<Rightarrow> App \<Rightarrow> App \<times> Proc"

type_synonym Task = "bool \<Rightarrow> App \<Rightarrow> App \<times> Proc"

definition taskEnd :: Task where
  "taskEnd flag s = (s, Done)"

text \<open>
  \<open>addImage\<close> and \<open>generateImageSafe\<close> once more, cut at every \<open>await\<close>; each piece
  takes the code that follows it. A storage request is made by the code before the
  \<open>await\<close> and, as above, taken to succeed; the generation call is made by
  \<open>startAttempt\<close> and its outcome is known when the task is resumed.
\<close>

definition addImage_proc :: "GeneratedImage \<Rightarrow> Task \<Rightarrow> Task" where
  "addImage_proc newImage rest flag s =
     (saveImageToDB newImage s,
      Await (\<lambda>flag1 s1. rest flag1 (s1\<lparr>images := newImage # images s1\<rparr>)))"

definition saveFailed_proc :: "Env \<Rightarrow> JobArgs \<Rightarrow> nat \<Rightarrow> string \<Rightarrow> Task \<Rightarrow> Task" where
  "saveFailed_proc env a retries errorMsg rest flag s =
     (if retries \<ge> MAX_RETRIES \<or> \<not> includesStr errorMsg ''429'' then
        (let failedJob = failedJobOf env a errorMsg (config_selectedPaletteId (config s))
         in (saveFailedJobToDB failedJob s,
             Await (\<lambda>flag1 s1. rest flag1
                      (addLog ''Saved failed job to Retry Queue.'' Warning
                         (s1\<lparr>failedJobs := failedJob # failedJobs s1\<rparr>)))))
      else rest flag s)"

definition permissionPrompt_proc :: "Env \<Rightarrow> string \<Rightarrow> Task \<Rightarrow> Task" where
  "permissionPrompt_proc env errorMsg rest flag s =
     (if includesStr errorMsg ''Requested entity was not found'' \<or> includesStr errorMsg ''403''
         \<or> includesStr errorMsg ''API key not valid'' then
        (let s1 = setHasApiKey False s;
             s2 = setError ''API Key Invalid or Permission Denied. Please re-enter.'' s1
         in if manualApiKey s2 = [] \<and> aistudio env
            then (emit OpenSelectKey s2, Await (\<lambda>flag1 s3. rest flag1 (setHasApiKey True s3)))
            else rest flag s2)
      else rest flag s)"

text \<open>
  The catch block: \<open>again\<close> is the loop from its top with \<open>retries\<close> incremented (after
  \<open>continue\<close>), \<open>out\<close> is what follows the loop (after \<open>break\<close>).
\<close>

definition onError_proc :: "Env \<Rightarrow> JobArgs \<Rightarrow> nat \<Rightarrow> Thrown \<Rightarrow> Task \<Rightarrow> Task \<Rightarrow> Task" where
  "onError_proc env a retries err again out flag s =
     (let errorMsg = errorMessage err in
      if includesStr errorMsg ''429'' \<or> includesStr errorMsg ''Too many requests'' then
        (if retries < MAX_RETRIES then
           (let waitTime = 10000 * (retries + 1) in
            (delay waitTime
               (addLog (''Rate Limited (429). Waiting '' @ showNat (waitTime div 1000) @ ''s...'')
                  Warning s),
             Await again))
         else
           saveFailed_proc env a retries errorMsg out flag
             (addLog (''Failed after '' @ showNat MAX_RETRIES @ '' retries due to rate limits.'')
                Error s))
      else
        permissionPrompt_proc env errorMsg (saveFailed_proc env a retries errorMsg out) flag
          (addLog (''Generation failed: '' @ errorMsg) Error s))"

text \<open>
  The loop from its top; \<open>rest\<close> is what the caller does with the value returned. The flag
  is read at the top of every attempt, so after a backoff it is the flag of the moment the
  backoff ends.
\<close>

function generateImageSafe_proc ::
  "Env \<Rightarrow> JobArgs \<Rightarrow> (Generated option \<Rightarrow> Task) \<Rightarrow> nat \<Rightarrow> Task" where
  "generateImageSafe_proc env a rest retries flag s =
     (if retries \<le> MAX_RETRIES then
        (if flag then rest None flag s
         else
           (startAttempt a retries s,
            Await (case generateSingleImage env retries of
                     Resolved (Some result) \<Rightarrow>
                       rest (Some \<lparr>content = res_url result, usedModel = res_usedModel result\<rparr>)
                   | Resolved None \<Rightarrow> rest None
                   | Threw err \<Rightarrow>
                       onError_proc env a retries err
                         (\<lambda>flag1 s1. generateImageSafe_proc env a rest (retries + 1) flag1 s1)
                         (rest None))))
      else rest None flag s)"
  by pat_completeness auto
termination
  by (relation "measure (\<lambda>(env, a, rest, retries, flag, s). MAX_RETRIES + 1 - retries)") auto

declare generateImageSafe_proc.simps [simp del]

text \<open>
  The thunks of the two batch transforms. \<open>cfg\<close> is the \<open>config\<close> of the render the
  handler was invoked in.
\<close>

definition colorizeTask_proc :: "Env \<Rightarrow> GenerationConfig \<Rightarrow> GeneratedImage \<Rightarrow> Task" where
  "colorizeTask_proc env cfg targetImg flag s =
     (if flag then (s, Done)
      else
        generateImageSafe_proc env
          \<lparr>prompt = img_prompt targetImg, printSize = config_printSize cfg,
           seed = randomSeed env, style = config_style cfg, colorMode = Color,
           resolution = img_resolution targetImg, useFrame = config_useFrame cfg,
           frameStyle = config_frameStyle cfg,
           referenceImages = Some [img_url targetImg], isEditing = True,
           transformType = Some Colorize\<rparr>
          (\<lambda>result. case result of
                       None \<Rightarrow> taskEnd
                     | Some r \<Rightarrow>
                         addImage_proc \<lparr>img_id = randomId env, img_url = content r,
                           img_prompt = ''Colorized: '' @ img_prompt targetImg,
                           img_timestamp = dateNow env,
                           img_resolution = img_resolution targetImg,
                           img_printSize = img_printSize targetImg\<rparr> taskEnd)
          0 flag s)"

definition decolorizeTask_proc :: "Env \<Rightarrow> GenerationConfig \<Rightarrow> GeneratedImage \<Rightarrow> Task" where
  "decolorizeTask_proc env cfg targetImg flag s =
     (if flag then (s, Done)
      else
        generateImageSafe_proc env
          \<lparr>prompt = img_prompt targetImg, printSize = config_printSize cfg,
           seed = randomSeed env, style = config_style cfg, colorMode = BW,
           resolution = img_resolution targetImg, useFrame = config_useFrame cfg,
           frameStyle = config_frameStyle cfg,
           referenceImages = Some [img_url targetImg], isEditing = True,
           transformType = Some Decolorize\<rparr>
          (\<lambda>result. case result of
                       None \<Rightarrow> taskEnd
                     | Some r \<Rightarrow>
                         addImage_proc \<lparr>img_id = randomId env, img_url = content r,
                           img_prompt = ''Line Art: '' @ img_prompt targetImg,
                           img_timestamp = dateNow env,
                           img_resolution = img_resolution targetImg,
                           img_printSize = img_printSize targetImg\<rparr> taskEnd)
          0 flag s)"

text \<open>
  A task left to itself: every promise it awaits resolves, with the flag at \<open>flag\<close>, before
  anything else happens.
\<close>

primrec exhaust :: "bool \<Rightarrow> Proc \<Rightarrow> App \<Rightarrow> App" where
  "exhaust flag Done = (\<lambda>s. s)"
| "exhaust flag (Await k) = (\<lambda>s. case map_prod id (exhaust flag) (k flag s) of (s1, run) \<Rightarrow> run s1)"

section \<open>The bounded concurrency runner (runConcurrentTasks)\<close>

text \<open>
  JavaScript runs the runner and the tasks on one thread, so the runner's code between two
  \<open>await\<close>s is one step. The runner is suspended at the pacing delay (\<open>Pacing\<close>), at
  \<open>Promise.race\<close> or at \<open>Promise.all\<close> (each with the array it was given), or has
  resolved. Tasks are named by their position in the task list; the wrapper promise \<open>e\<close> of a
  task is named like the task.
\<close>

datatype Phase = Pacing | Racing "nat list" | Joining "nat list" | Finished

datatype RunnerEvent = CheckStop bool | WaitDelay nat | StartTask nat | WaitRace | WaitAll

record Runner =
  app :: App
  stopGenerationRef :: bool
  nextTask :: nat
  executing :: "nat list"
  started :: "nat list"
  settled :: "nat list"
  waiting :: "nat \<Rightarrow> Proc"
  pc :: Phase
  rlog :: "RunnerEvent list"

text \<open>\<open>xs.indexOf(x)\<close> and the array left by \<open>xs.splice(start, 1)\<close>.\<close>

fun indexOf :: "'a list \<Rightarrow> 'a \<Rightarrow> int" where
  "indexOf [] x = - 1"
| "indexOf (y # ys) x = (if y = x then 0 else (if indexOf ys x < 0 then - 1 else indexOf ys x + 1))"

definition splice1 :: "'a list \<Rightarrow> int \<Rightarrow> 'a list" where
  "splice1 xs start =
     (let n = int (length xs);
          k = nat (if start < 0 then max (n + start) 0 else min start n)
      in take k xs @ drop (k + 1) xs)"

text \<open>
  The head of the loop, up to the next \<open>await\<close>: leave the loop when the list is used up or
  the flag is set, otherwise call \<open>delay(1000)\<close>. After the loop comes
  \<open>Promise.all(executing)\<close>.
\<close>

definition loopTop :: "nat \<Rightarrow> Runner \<Rightarrow> Runner" where
  "loopTop n r =
     (if nextTask r < n then
        (if stopGenerationRef r
         then r\<lparr>pc := Joining (executing r), rlog := rlog r @ [CheckStop True, WaitAll]\<rparr>
         else r\<lparr>pc := Pacing, rlog := rlog r @ [CheckStop False, WaitDelay 1000]\<rparr>)
      else r\<lparr>pc := Joining (executing r), rlog := rlog r @ [WaitAll]\<rparr>)"

text \<open>
  \<open>Promise.resolve().then(() => task())\<close>: the thunk is invoked in a microtask, once the
  runner has reached its next \<open>await\<close> and before any timer, completion or user event. It
  runs to its first \<open>await\<close> or to its end.
\<close>

definition startTask :: "Task list \<Rightarrow> nat \<Rightarrow> Runner \<Rightarrow> Runner" where
  "startTask tasks i r =
     (let (s, p) = (tasks ! i) (stopGenerationRef r) (app r)
      in r\<lparr>app := s, waiting := (waiting r)(i := p)\<rparr>)"

text \<open>
  The runner's awaited promise resolves and the runner runs to its next \<open>await\<close>. After the
  delay it starts the task, pushes its wrapper and either races or goes round the loop
  (\<open>Pacing\<close> is only entered by \<open>loopTop\<close>, with a task left in the list).
  \<open>Promise.race\<close> resolves once a promise of its array has resolved, \<open>Promise.all\<close> once
  all have; until then the runner stays where it is.
\<close>

definition tick :: "Task list \<Rightarrow> int \<Rightarrow> Runner \<Rightarrow> Runner" where
  "tick tasks concurrency r =
     (case pc r of
        Pacing \<Rightarrow>
          (let i = nextTask r;
               r1 = r\<lparr>started := started r @ [i],
                      executing := executing r @ [i],
                      nextTask := i + 1,
                      rlog := rlog r @ [StartTask i]\<rparr>
           in startTask tasks i
                (if int (length (executing r1)) \<ge> concurrency
                 then r1\<lparr>pc := Racing (executing r1), rlog := rlog r1 @ [WaitRace]\<rparr>
                 else loopTop (length tasks) r1))
      | Racing snapshot \<Rightarrow>
          (if list_ex (\<lambda>e. e \<in> set (settled r)) snapshot then loopTop (length tasks) r else r)
      | Joining snapshot \<Rightarrow>
          (if list_all (\<lambda>e. e \<in> set (settled r)) snapshot then r\<lparr>pc := Finished\<rparr> else r)
      | Finished \<Rightarrow> r)"

text \<open>
  The promise a task in flight is suspended at resolves, and the task runs to its next
  \<open>await\<close> or to its end.
\<close>

definition resume :: "nat \<Rightarrow> Runner \<Rightarrow> Runner" where
  "resume i r =
     (if i \<in> set (started r) \<and> i \<notin> set (settled r) then
        (case waiting r i of
           Done \<Rightarrow> r
         | Await k \<Rightarrow>
             (let (s, p) = k (stopGenerationRef r) (app r)
              in r\<lparr>app := s, waiting := (waiting r)(i := p)\<rparr>))
      else r)"

text \<open>
  A task that has run to its end settles: the callback of its wrapper removes the wrapper
  from \<open>executing\<close>. The callback runs in a microtask of its own after the last step of
  the task; here it is a step of its own.
\<close>

definition settle :: "nat \<Rightarrow> Runner \<Rightarrow> Runner" where
  "settle i r =
     (if i \<in> set (started r) \<and> i \<notin> set (settled r) then
        (case waiting r i of
           Done \<Rightarrow>
             r\<lparr>settled := settled r @ [i],
               executing := splice1 (executing r) (indexOf (executing r) i)\<rparr>
         | Await k \<Rightarrow> r)
      else r)"

text \<open>\<open>handleStop\<close>, which the user may trigger whenever the runner is suspended.\<close>

definition handleStop :: "Runner \<Rightarrow> Runner" where
  "handleStop r =
     r\<lparr>stopGenerationRef := True,
       app := addLog ''Stopping generation sequence...'' Warning (app r)\<rparr>"

text \<open>
  The handlers that start a run (and \<open>handleGenerate\<close> when it ends) write \<open>false\<close> to
  the flag; the batch buttons stay enabled during a run, so this too can happen whenever
  the runner is suspended. Only the write to the flag is modelled.
\<close>

definition clearStop :: "Runner \<Rightarrow> Runner" where
  "clearStop r = r\<lparr>stopGenerationRef := False\<rparr>"

text \<open>
  What can happen while the runner is suspended: its awaited promise resolves, a task in
  flight is resumed, a task at its end settles, the user stops, or the flag is cleared.
\<close>

datatype Event = Tick | Resume nat | Settle nat | Stop | Clear

fun step :: "Task list \<Rightarrow> int \<Rightarrow> Runner \<Rightarrow> Event \<Rightarrow> Runner" where
  "step tasks concurrency r Tick = tick tasks concurrency r"
| "step tasks concurrency r (Resume i) = resume i r"
| "step tasks concurrency r (Settle i) = settle i r"
| "step tasks concurrency r Stop = handleStop r"
| "step tasks concurrency r Clear = clearStop r"

definition enterRunner :: "bool \<Rightarrow> App \<Rightarrow> Runner" where
  "enterRunner flag s =
     \<lparr>app = s, stopGenerationRef = flag, nextTask = 0, executing = [], started = [],
      settled = [], waiting = (\<lambda>i. Done), pc = Pacing, rlog = []\<rparr>"

text \<open>
  The state of a run of \<open>runConcurrentTasks(tasks, concurrency)\<close> after the events of a
  schedule, entered with the given flag and component state.
\<close>

definition runConcurrentTasks :: "Task list \<Rightarrow> int \<Rightarrow> bool \<Rightarrow> App \<Rightarrow> Event list \<Rightarrow> Runner" where
  "runConcurrentTasks tasks concurrency flag s schedule =
     foldl (step tasks concurrency) (loopTop (length tasks) (enterRunner flag s)) schedule"

definition unresolved :: "Runner \<Rightarrow> nat list" where
  "unresolved r = filter (\<lambda>i. i \<notin> set (settled r)) (started r)"

section \<open>Batch colorize and decolorize (handleBatchColorize, handleBatchDecolorize)\<close>

text \<open>
  The handler up to the end of a schedule: while the runner's promise has not resolved the
  handler is still suspended at its \<open>await\<close>. Task \<open>k\<close> runs in the environment
  \<open>envs k\<close>.
\<close>

definition handleBatchColorize :: "(nat \<Rightarrow> Env) \<Rightarrow> Event list \<Rightarrow> App \<Rightarrow> App" where
  "handleBatchColorize envs schedule s =
     (if \<not> hasApiKey s then s
      else if selectedIds s = {} then s
      else
        (let s1 = addLog (''Colorizing '' @ showNat (card (selectedIds s)) @ '' images...'') Info
                    (s\<lparr>isGenerating := True\<rparr>);
             targets = filter (\<lambda>img. img_id img \<in> selectedIds s) (images s);
             tasks = map (\<lambda>(k, targetImg). colorizeTask_proc (envs k) (config s) targetImg)
                       (enumerate 0 targets);
             r = runConcurrentTasks tasks 2 False s1 schedule
         in if pc r = Finished
            then (addLog ''Batch Colorize Finished.'' Success ((app r)\<lparr>selectedIds := {}\<rparr>))
                   \<lparr>isGenerating := False\<rparr>
            else app r))"

definition handleBatchDecolorize :: "(nat \<Rightarrow> Env) \<Rightarrow> Event list \<Rightarrow> App \<Rightarrow> App" where
  "handleBatchDecolorize envs schedule s =
     (if \<not> hasApiKey s then s
      else if selectedIds s = {} then s
      else
        (let s1 = addLog (''Decolorizing '' @ showNat (card (selectedIds s)) @ '' images...'') Info
                    (s\<lparr>isGenerating := True\<rparr>);
             targets = filter (\<lambda>img. img_id img \<in> selectedIds s) (images s);
             tasks = map (\<lambda>(k, targetImg). decolorizeTask_proc (envs k) (config s) targetImg)
                       (enumerate 0 targets);
             r = runConcurrentTasks tasks 2 False s1 schedule
         in if pc r = Finished
            then (addLog ''Batch Decolorize Finished.'' Success ((app r)\<lparr>selectedIds := {}\<rparr>))
                   \<lparr>isGenerating := False\<rparr>
            else app r))"

section \<open>Vocabulary of the properties\<close>



text \<open>What happened between two states, and what of it was of one kind.\<close>

definition newEffects :: "App \<Rightarrow> App \<Rightarrow> Effect list" where
  "newEffects s s' = drop (length (effects s)) (effects s')"

fun persistedFailedJobs :: "Effect list \<Rightarrow> FailedJob list" where
  "persistedFailedJobs [] = []"
| "persistedFailedJobs (SaveFailedJobToDB j # es) = j # persistedFailedJobs es"
| "persistedFailedJobs (e # es) = persistedFailedJobs es"

fun generationCalls :: "Effect list \<Rightarrow> JobArgs list" where
  "generationCalls [] = []"
| "generationCalls (GenerateSingleImage k a # es) = a # generationCalls es"
| "generationCalls (e # es) = generationCalls es"

fun delays :: "Effect list \<Rightarrow> nat list" where
  "delays [] = []"
| "delays (Delay ms # es) = ms # delays es"
| "delays (e # es) = delays es"

text \<open>The generation call a job issues at each attempt.\<close>

definition generationCall :: "JobArgs \<Rightarrow> App \<Rightarrow> Effect" where
  "generationCall a s =
     GenerateSingleImage (manualApiKey s) (a\<lparr>referenceImages := Some (referenceImagesOf a)\<rparr>)"

text \<open>The rate-limited branch with retries left: log the wait, then wait.\<close>

definition backoff :: "nat \<Rightarrow> App \<Rightarrow> App" where
  "backoff retries s =
     delay (10000 * (retries + 1))
       (addLog (''Rate Limited (429). Waiting '' @ showNat (10000 * (retries + 1) div 1000) @ ''s...'')
          Warning s)"


section \<open>Sample inputs\<close>

text \<open>A generation stub with the same outcome at every call, never cancelled.\<close>

definition stubEnv :: "GenOutcome \<Rightarrow> Env" where
  "stubEnv outcome =
     \<lparr>generateSingleImage = (\<lambda>k. outcome), stopAt = (\<lambda>k. False), aistudio = False,
      dateNow = 1000, random1000 = 7, randomSeed = 42, randomId = ''k3x9''\<rparr>"

definition sampleConfig :: GenerationConfig where
  "sampleConfig =
     \<lparr>config_prompt = ''a cat'', config_style = ''trung-default'', config_printSize = SQUARE_8x8,
      config_colorMode = BW, config_resolution = Res1k, config_batchCount = 1,
      config_useFrame = False, config_frameStyle = SIMPLE, config_selectedPaletteId = None\<rparr>"

definition sampleImage :: "string \<Rightarrow> GeneratedImage" where
  "sampleImage i =
     \<lparr>img_id = i, img_url = ''data:image/png;base64,AAAA'', img_prompt = ''a cat'',
      img_timestamp = 500, img_resolution = Res1k, img_printSize = SQUARE_8x8\<rparr>"

definition sampleJob :: FailedJob where
  "sampleJob =
     \<lparr>job_id = ''fail-900-1'', job_timestamp = 900, job_error = ''500 Internal error'',
      jobConfig = \<lparr>cfg_prompt = ''a cat'', cfg_printSize = SQUARE_8x8, cfg_seed = 12345,
        cfg_style = ''trung-default'', cfg_colorMode = BW, cfg_resolution = Res1k,
        cfg_useFrame = False, cfg_frameStyle = SIMPLE, cfg_referenceImages = Some [],
        cfg_isEditing = False, cfg_transformType = None, cfg_selectedPaletteId = None\<rparr>\<rparr>"

definition sampleArgs :: JobArgs where
  "sampleArgs =
     \<lparr>prompt = ''a cat'', printSize = SQUARE_8x8, seed = 12345, style = ''trung-default'',
      colorMode = BW, resolution = Res1k, useFrame = False, frameStyle = SIMPLE,
      referenceImages = None, isEditing = False, transformType = None\<rparr>"

definition sampleApp :: App where
  "sampleApp =
     \<lparr>hasApiKey = True, manualApiKey = ''AIza'', isGenerating = False,
      images = [sampleImage ''a'', sampleImage ''b''],
      failedJobs = [sampleJob], selectedIds = {''a'', ''b''}, error = None, logs = [],
      config = sampleConfig,
      db_images = [''a'' \<mapsto> sampleImage ''a'', ''b'' \<mapsto> sampleImage ''b''],
      db_failed_jobs = [''fail-900-1'' \<mapsto> sampleJob], effects = []\<rparr>"


section \<open>Invariants of the runner\<close>

text \<open>
  Tasks are started in list order, each once; a started task is in \<open>executing\<close> exactly
  until it settles.
\<close>

definition coreInv :: "nat \<Rightarrow> Runner \<Rightarrow> bool" where
  "coreInv n r \<longleftrightarrow>
     [0..<nextTask r] = started r \<and> nextTask r \<le> n \<and> distinct (settled r)
     \<and> set (settled r) \<subseteq> set (started r)
     \<and> executing r = filter (\<lambda>i. i \<notin> set (settled r)) (started r)"

definition phaseInv :: "nat \<Rightarrow> Runner \<Rightarrow> bool" where
  "phaseInv n r \<longleftrightarrow>
     (case pc r of
        Pacing \<Rightarrow> nextTask r < n
      | Racing snapshot \<Rightarrow> True
      | Joining snapshot \<Rightarrow> (\<forall>i \<in> set (started r). i \<in> set snapshot \<or> i \<in> set (settled r))
      | Finished \<Rightarrow> set (started r) \<subseteq> set (settled r))"

definition boundInv :: "int \<Rightarrow> Runner \<Rightarrow> bool" where
  "boundInv c r \<longleftrightarrow>
     (case pc r of
        Racing snapshot \<Rightarrow>
          set (executing r) \<subseteq> set snapshot \<and> int (length snapshot) \<le> c \<and> distinct snapshot
      | _ \<Rightarrow> int (length (executing r)) < c)"


text \<open>
  On the runner's log read backwards: every start of a task comes straight after a
  \<open>delay(1000)\<close>, which comes straight after a cancellation check that found the flag clear.
\<close>

fun pacedRev :: "RunnerEvent list \<Rightarrow> bool" where
  "pacedRev [] = True"
| "pacedRev (e # es) =
     ((case e of StartTask i \<Rightarrow> take 2 es = [WaitDelay 1000, CheckStop False] | _ \<Rightarrow> True)
      \<and> pacedRev es)"

definition logInv :: "Runner \<Rightarrow> bool" where
  "logInv r \<longleftrightarrow>
     pacedRev (rev (rlog r))
     \<and> (pc r = Pacing \<longrightarrow> take 2 (rev (rlog r)) = [WaitDelay 1000, CheckStop False])
     \<and> set (started r) = {i. StartTask i \<in> set (rlog r)}
     \<and> (\<forall>ms. WaitDelay ms \<in> set (rlog r) \<longrightarrow> ms = 1000)"

text \<open>
  A task whose generation call will succeed, once the call is made: suspended at the call,
  then at the storage request for the new history entry, then at its end with the entry
  added.
\<close>

definition awaitingStorage :: "GeneratedImage \<Rightarrow> Proc" where
  "awaitingStorage newImage = Await (\<lambda>flag s. (s\<lparr>images := newImage # images s\<rparr>, Done))"

definition awaitingResult :: "GeneratedImage \<Rightarrow> Proc" where
  "awaitingResult newImage = Await (\<lambda>flag s. (saveImageToDB newImage s, awaitingStorage newImage))"

text \<open>
  A batch of such tasks while no stop is requested, task \<open>i\<close> calling with \<open>calls i\<close> and
  adding \<open>img i\<close>: the flag stays clear; every started task is at one of the three
  points; the history is the old one with the entries of the tasks at their end in front,
  latest first; the generation calls made are those of the started tasks, in list order;
  only tasks at their end have settled; and the loop is only left when the list is used up.
\<close>

definition batchInv ::
  "(nat \<Rightarrow> JobArgs) \<Rightarrow> (nat \<Rightarrow> GeneratedImage) \<Rightarrow> App \<Rightarrow> nat \<Rightarrow> Runner \<Rightarrow> bool" where
  "batchInv calls img s0 n r \<longleftrightarrow>
     \<not> stopGenerationRef r
     \<and> (\<forall>i < nextTask r. waiting r i = awaitingResult (img i)
            \<or> waiting r i = awaitingStorage (img i) \<or> waiting r i = Done)
     \<and> (\<exists>added. distinct added \<and> set added = {i. i < nextTask r \<and> waiting r i = Done}
            \<and> images (app r) = map img (rev added) @ images s0)
     \<and> (\<exists>es. effects (app r) = effects s0 @ es \<and> generationCalls es = map calls [0..<nextTask r])
     \<and> isGenerating (app r) = isGenerating s0
     \<and> (\<forall>i \<in> set (settled r). waiting r i = Done)
     \<and> (pc r \<noteq> Pacing \<and> (\<forall>snapshot. pc r \<noteq> Racing snapshot) \<longrightarrow> nextTask r = n)"

text \<open>The history entries and generation parameters of the two batch transforms.\<close>

definition colorizedImage :: "Env \<Rightarrow> ImageResult \<Rightarrow> GeneratedImage \<Rightarrow> GeneratedImage" where
  "colorizedImage env result targetImg =
     \<lparr>img_id = randomId env, img_url = res_url result,
      img_prompt = ''Colorized: '' @ img_prompt targetImg, img_timestamp = dateNow env,
      img_resolution = img_resolution targetImg, img_printSize = img_printSize targetImg\<rparr>"

definition decolorizedImage :: "Env \<Rightarrow> ImageResult \<Rightarrow> GeneratedImage \<Rightarrow> GeneratedImage" where
  "decolorizedImage env result targetImg =
     \<lparr>img_id = randomId env, img_url = res_url result,
      img_prompt = ''Line Art: '' @ img_prompt targetImg, img_timestamp = dateNow env,
      img_resolution = img_resolution targetImg, img_printSize = img_printSize targetImg\<rparr>"

definition transformArgs ::
  "ColorMode \<Rightarrow> TransformType \<Rightarrow> GenerationConfig \<Rightarrow> Env \<Rightarrow> GeneratedImage \<Rightarrow> JobArgs" where
  "transformArgs mode transform cfg env targetImg =
     \<lparr>prompt = img_prompt targetImg, printSize = config_printSize cfg, seed = randomSeed env,
      style = config_style cfg, colorMode = mode, resolution = img_resolution targetImg,
      useFrame = config_useFrame cfg, frameStyle = config_frameStyle cfg,
      referenceImages = Some [img_url targetImg], isEditing = True,
      transformType = Some transform\<rparr>"

text \<open>
  The schedule in which every task is started, gets its result, gets its entry stored and
  settles before the next delay ends, and the runner's last await completes after the last
  task has settled.
\<close>

fun rounds :: "nat \<Rightarrow> Event list" where
  "rounds 0 = []"
| "rounds (Suc k) = rounds k @ [Tick, Resume k, Resume k, Settle k]"

definition eachInTurn :: "nat \<Rightarrow> Event list" where
  "eachInTurn n = rounds n @ [Tick]"

section \<open>Facts about the state operations\<close>

lemma emit_fields [simp]:
  "effects (emit e s) = effects s @ [e]" "logs (emit e s) = logs s"
  "failedJobs (emit e s) = failedJobs s" "db_failed_jobs (emit e s) = db_failed_jobs s"
  "images (emit e s) = images s" "db_images (emit e s) = db_images s"
  "config (emit e s) = config s" "manualApiKey (emit e s) = manualApiKey s"
  "hasApiKey (emit e s) = hasApiKey s" "error (emit e s) = error s"
  "selectedIds (emit e s) = selectedIds s"
  by (simp_all add: emit_def)

lemma addLog_fields [simp]:
  "effects (addLog m t s) = effects s" "logs (addLog m t s) = \<lparr>message = m, logType = t\<rparr> # logs s"
  "failedJobs (addLog m t s) = failedJobs s" "db_failed_jobs (addLog m t s) = db_failed_jobs s"
  "images (addLog m t s) = images s" "db_images (addLog m t s) = db_images s"
  "config (addLog m t s) = config s" "manualApiKey (addLog m t s) = manualApiKey s"
  "hasApiKey (addLog m t s) = hasApiKey s" "error (addLog m t s) = error s"
  "selectedIds (addLog m t s) = selectedIds s"
  by (simp_all add: addLog_def)

lemma delay_fields [simp]:
  "effects (delay ms s) = effects s @ [Delay ms]" "logs (delay ms s) = logs s"
  "failedJobs (delay ms s) = failedJobs s" "db_failed_jobs (delay ms s) = db_failed_jobs s"
  "images (delay ms s) = images s" "db_images (delay ms s) = db_images s"
  "config (delay ms s) = config s" "manualApiKey (delay ms s) = manualApiKey s"
  "hasApiKey (delay ms s) = hasApiKey s" "error (delay ms s) = error s"
  "selectedIds (delay ms s) = selectedIds s"
  by (simp_all add: delay_def)

lemma startAttempt_fields [simp]:
  "effects (startAttempt a r s) =
     effects s @ [generationCall a s]"
  "failedJobs (startAttempt a r s) = failedJobs s" "db_failed_jobs (startAttempt a r s) = db_failed_jobs s"
  "images (startAttempt a r s) = images s" "db_images (startAttempt a r s) = db_images s"
  "config (startAttempt a r s) = config s" "manualApiKey (startAttempt a r s) = manualApiKey s"
  "hasApiKey (startAttempt a r s) = hasApiKey s" "error (startAttempt a r s) = error s"
  "selectedIds (startAttempt a r s) = selectedIds s"
  by (simp_all add: startAttempt_def Let_def generationCall_def)

lemma startAttempt_logs:
  "logs (startAttempt a r s) =
     (if r = 0 then \<lparr>message = actionLabel a @ ''...'', logType = Info\<rparr>
      else \<lparr>message = ''Retry '' @ showNat r @ ''/'' @ showNat MAX_RETRIES @ '': '' @ actionLabel a @ ''...'',
             logType = Warning\<rparr>) # logs s"
  by (simp add: startAttempt_def Let_def)

lemma permissionPrompt_fields [simp]:
  "failedJobs (permissionPrompt env m s) = failedJobs s"
  "db_failed_jobs (permissionPrompt env m s) = db_failed_jobs s"
  "images (permissionPrompt env m s) = images s" "db_images (permissionPrompt env m s) = db_images s"
  "config (permissionPrompt env m s) = config s" "manualApiKey (permissionPrompt env m s) = manualApiKey s"
  "logs (permissionPrompt env m s) = logs s" "selectedIds (permissionPrompt env m s) = selectedIds s"
  by (simp_all add: permissionPrompt_def setHasApiKey_def setError_def Let_def)



lemma saveFailedJobToDB_fields [simp]:
  "effects (saveFailedJobToDB j s) = effects s @ [SaveFailedJobToDB j]"
  "logs (saveFailedJobToDB j s) = logs s" "failedJobs (saveFailedJobToDB j s) = failedJobs s"
  "db_failed_jobs (saveFailedJobToDB j s) = (db_failed_jobs s)(job_id j \<mapsto> j)"
  "images (saveFailedJobToDB j s) = images s" "db_images (saveFailedJobToDB j s) = db_images s"
  "config (saveFailedJobToDB j s) = config s" "manualApiKey (saveFailedJobToDB j s) = manualApiKey s"
  "hasApiKey (saveFailedJobToDB j s) = hasApiKey s" "error (saveFailedJobToDB j s) = error s"
  "selectedIds (saveFailedJobToDB j s) = selectedIds s"
  by (simp_all add: saveFailedJobToDB_def)


lemma failedJobOf_fields [simp]:
  "job_error (failedJobOf env a m p) = m"
  "job_timestamp (failedJobOf env a m p) = dateNow env"
  "cfg_seed (jobConfig (failedJobOf env a m p)) = seed a"
  "cfg_prompt (jobConfig (failedJobOf env a m p)) = prompt a"
  by (simp_all add: failedJobOf_def)

lemma generationCall_ops [simp]:
  "generationCall a (addLog m t s) = generationCall a s"
  "generationCall a (delay ms s) = generationCall a s"
  "generationCall a (emit e s) = generationCall a s"
  "generationCall a (startAttempt b r s) = generationCall a s"
  by (simp_all add: generationCall_def)

lemma backoff_fields [simp]:
  "effects (backoff r s) = effects s @ [Delay (10000 * (r + 1))]"
  "failedJobs (backoff r s) = failedJobs s" "db_failed_jobs (backoff r s) = db_failed_jobs s"
  "images (backoff r s) = images s" "db_images (backoff r s) = db_images s"
  "config (backoff r s) = config s" "manualApiKey (backoff r s) = manualApiKey s"
  "hasApiKey (backoff r s) = hasApiKey s" "error (backoff r s) = error s"
  "selectedIds (backoff r s) = selectedIds s"
  by (simp_all add: backoff_def)

lemma generationCall_backoff [simp]: "generationCall a (backoff r s) = generationCall a s"
  by (simp add: generationCall_def)





lemma loop_resolved:
  "retries \<le> MAX_RETRIES \<Longrightarrow> \<not> stopAt env retries \<Longrightarrow> generateSingleImage env retries = Resolved res \<Longrightarrow>
   generateImageSafe_loop env a retries s =
     (case res of None \<Rightarrow> None | Some result \<Rightarrow> Some \<lparr>content = res_url result, usedModel = res_usedModel result\<rparr>,
      startAttempt a retries s)"
  by (subst generateImageSafe_loop.simps) (simp split: option.splits)





section \<open>The claims about the executor\<close>

lemma stubEnv_fields [simp]:
  "generateSingleImage (stubEnv out) k = out" "stopAt (stubEnv out) k = False"
  "aistudio (stubEnv out) = False" "dateNow (stubEnv out) = 1000" "random1000 (stubEnv out) = 7"
  "randomSeed (stubEnv out) = 42" "randomId (stubEnv out) = ''k3x9''"
  by (simp_all add: stubEnv_def)

lemma newEffects_append: "effects s' = effects s @ es \<Longrightarrow> newEffects s s' = es"
  by (simp add: newEffects_def)









lemma generateImageSafe_null:
  assumes "\<not> stopAt env 0" "generateSingleImage env 0 = Resolved None"
  shows "generateImageSafe env a s = (None, startAttempt a 0 s)"
  using assms by (simp add: generateImageSafe_def loop_resolved)

text \<open>
  C10. Whenever an attempt's generation call resolves to \<open>null\<close> (at any value of the
  retry counter), the loop is left at once and \<open>generateImageSafe\<close> returns
  \<open>null\<close>: the call itself is the only effect (no further call, no wait, no FailedJob
  written), the failed-job list, the history and both stores are unchanged, and the only log
  entry is the announcement of the attempt, which is not of type error. The callers add a
  history entry only for a result that is not \<open>null\<close>: when the first call resolves to
  \<open>null\<close>, Retry-one, a Retry-all task and the batch colorize and decolorize tasks leave
  the history as it was, and the replays leave the failed-job store as it was.
\<close>

theorem C10_null_result:
  assumes "retries \<le> MAX_RETRIES" and "\<not> stopAt env retries"
    and "generateSingleImage env retries = Resolved None"
  shows "(\<exists>s'. generateImageSafe_loop env a retries s = (None, s')
     \<and> newEffects s s' = [generationCall a s]
     \<and> persistedFailedJobs (newEffects s s') = []
     \<and> delays (newEffects s s') = []
     \<and> db_failed_jobs s' = db_failed_jobs s \<and> failedJobs s' = failedJobs s
     \<and> images s' = images s \<and> db_images s' = db_images s
     \<and> logs s' =
         (if retries = 0 then \<lparr>message = actionLabel a @ ''...'', logType = Info\<rparr>
          else \<lparr>message = ''Retry '' @ showNat retries @ ''/'' @ showNat MAX_RETRIES @ '': ''
                            @ actionLabel a @ ''...'', logType = Warning\<rparr>) # logs s)
   \<and> (retries = 0 \<longrightarrow>
         images (handleRetryJob env job s) = images s
       \<and> failedJobs (handleRetryJob env job s) = failedJobs s
       \<and> db_failed_jobs (handleRetryJob env job s) = db_failed_jobs s
       \<and> images (retryAllTask env job False s) = images s
       \<and> db_failed_jobs (retryAllTask env job False s) = db_failed_jobs s
       \<and> images (colorizeTask env targetImg False s) = images s
       \<and> images (decolorizeTask env targetImg False s) = images s)"
proof (intro conjI impI)
  show "\<exists>s'. generateImageSafe_loop env a retries s = (None, s')
     \<and> newEffects s s' = [generationCall a s]
     \<and> persistedFailedJobs (newEffects s s') = []
     \<and> delays (newEffects s s') = []
     \<and> db_failed_jobs s' = db_failed_jobs s \<and> failedJobs s' = failedJobs s
     \<and> images s' = images s \<and> db_images s' = db_images s
     \<and> logs s' =
         (if retries = 0 then \<lparr>message = actionLabel a @ ''...'', logType = Info\<rparr>
          else \<lparr>message = ''Retry '' @ showNat retries @ ''/'' @ showNat MAX_RETRIES @ '': ''
                            @ actionLabel a @ ''...'', logType = Warning\<rparr>) # logs s"
    using assms by (simp add: loop_resolved newEffects_def startAttempt_logs generationCall_def)
next
  assume z: "retries = 0"
  have g: "generateImageSafe (env\<lparr>stopAt := (stopAt env)(0 := False)\<rparr>) x s1 = (None, startAttempt x 0 s1)"
    for x s1
    by (rule generateImageSafe_null) (use assms z in simp_all)
  show "images (handleRetryJob env job s) = images s"
    "failedJobs (handleRetryJob env job s) = failedJobs s"
    "db_failed_jobs (handleRetryJob env job s) = db_failed_jobs s"
    by (simp_all add: handleRetryJob_def Let_def g)
  show "images (retryAllTask env job False s) = images s"
    "db_failed_jobs (retryAllTask env job False s) = db_failed_jobs s"
    by (simp_all add: retryAllTask_def Let_def g)
  show "images (colorizeTask env targetImg False s) = images s"
    by (simp add: colorizeTask_def g)
  show "images (decolorizeTask env targetImg False s) = images s"
    by (simp add: decolorizeTask_def g)
qed

theorem C10_null_result_witness:
  "(\<exists>s'. generateImageSafe_loop (stubEnv (Resolved None)) sampleArgs 0 sampleApp = (None, s')
     \<and> newEffects sampleApp s' = [generationCall sampleArgs sampleApp]
     \<and> persistedFailedJobs (newEffects sampleApp s') = []
     \<and> delays (newEffects sampleApp s') = []
     \<and> db_failed_jobs s' = db_failed_jobs sampleApp \<and> failedJobs s' = failedJobs sampleApp
     \<and> images s' = images sampleApp \<and> db_images s' = db_images sampleApp
     \<and> logs s' = \<lparr>message = actionLabel sampleArgs @ ''...'', logType = Info\<rparr> # logs sampleApp)
   \<and> images (handleRetryJob (stubEnv (Resolved None)) sampleJob sampleApp) = images sampleApp
   \<and> failedJobs (handleRetryJob (stubEnv (Resolved None)) sampleJob sampleApp) = failedJobs sampleApp
   \<and> db_failed_jobs (handleRetryJob (stubEnv (Resolved None)) sampleJob sampleApp) = db_failed_jobs sampleApp
   \<and> images (colorizeTask (stubEnv (Resolved None)) (sampleImage ''a'') False sampleApp) = images sampleApp"
proof -
  have h: "(0::nat) \<le> MAX_RETRIES" "\<not> stopAt (stubEnv (Resolved None)) 0"
    "generateSingleImage (stubEnv (Resolved None)) 0 = Resolved None"
    by simp_all
  show ?thesis
    using C10_null_result [OF h, of sampleArgs sampleApp sampleJob "sampleImage ''a''"] by simp
qed

section \<open>The claims about replaying failed jobs\<close>

lemma saveImageToDB_fields [simp]:
  "effects (saveImageToDB i s) = effects s @ [SaveImageToDB i]"
  "logs (saveImageToDB i s) = logs s" "failedJobs (saveImageToDB i s) = failedJobs s"
  "db_failed_jobs (saveImageToDB i s) = db_failed_jobs s"
  "images (saveImageToDB i s) = images s" "db_images (saveImageToDB i s) = (db_images s)(img_id i \<mapsto> i)"
  "config (saveImageToDB i s) = config s" "manualApiKey (saveImageToDB i s) = manualApiKey s"
  "hasApiKey (saveImageToDB i s) = hasApiKey s" "error (saveImageToDB i s) = error s"
  "selectedIds (saveImageToDB i s) = selectedIds s"
  by (simp_all add: saveImageToDB_def)

lemma addImage_fields [simp]:
  "effects (addImage i s) = effects s @ [SaveImageToDB i]"
  "logs (addImage i s) = logs s" "failedJobs (addImage i s) = failedJobs s"
  "db_failed_jobs (addImage i s) = db_failed_jobs s"
  "images (addImage i s) = i # images s" "db_images (addImage i s) = (db_images s)(img_id i \<mapsto> i)"
  "config (addImage i s) = config s" "manualApiKey (addImage i s) = manualApiKey s"
  "hasApiKey (addImage i s) = hasApiKey s" "error (addImage i s) = error s"
  "selectedIds (addImage i s) = selectedIds s"
  by (simp_all add: addImage_def Let_def)

lemma deleteFailedJobFromDB_fields [simp]:
  "effects (deleteFailedJobFromDB i s) = effects s @ [DeleteFailedJobFromDB i]"
  "logs (deleteFailedJobFromDB i s) = logs s" "failedJobs (deleteFailedJobFromDB i s) = failedJobs s"
  "db_failed_jobs (deleteFailedJobFromDB i s) = (db_failed_jobs s)(i := None)"
  "images (deleteFailedJobFromDB i s) = images s" "db_images (deleteFailedJobFromDB i s) = db_images s"
  "config (deleteFailedJobFromDB i s) = config s" "manualApiKey (deleteFailedJobFromDB i s) = manualApiKey s"
  "hasApiKey (deleteFailedJobFromDB i s) = hasApiKey s" "error (deleteFailedJobFromDB i s) = error s"
  "selectedIds (deleteFailedJobFromDB i s) = selectedIds s"
  by (simp_all add: deleteFailedJobFromDB_def)

lemma argsOfConfig_fields [simp]:
  "seed (argsOfConfig cfg) = cfg_seed cfg" "prompt (argsOfConfig cfg) = cfg_prompt cfg"
  "colorMode (argsOfConfig cfg) = cfg_colorMode cfg" "transformType (argsOfConfig cfg) = cfg_transformType cfg"
  by (simp_all add: argsOfConfig_def)



lemma newEffects_shift:
  "effects s1 = effects s \<Longrightarrow> newEffects s s' = newEffects s1 s'"
  by (simp add: newEffects_def)







section \<open>The runner keeps its invariants\<close>

lemma indexOf_bounds: "x \<in> set xs \<Longrightarrow> 0 \<le> indexOf xs x \<and> indexOf xs x < int (length xs)"
  by (induction xs) auto

lemma indexOf_absent: "x \<notin> set xs \<Longrightarrow> indexOf xs x = - 1"
  by (induction xs) auto

lemma splice1_indexOf: "x \<in> set xs \<Longrightarrow> splice1 xs (indexOf xs x) = remove1 x xs"
proof (induction xs)
  case Nil
  then show ?case by simp
next
  case (Cons y ys)
  show ?case
  proof (cases "y = x")
    case True
    then show ?thesis by (simp add: splice1_def)
  next
    case False
    with Cons.prems have m: "x \<in> set ys" by simp
    from indexOf_bounds [OF m] have b: "0 \<le> indexOf ys x" "indexOf ys x < int (length ys)" by simp_all
    have "splice1 ys (indexOf ys x) = remove1 x ys" using Cons.IH m by simp
    then have e: "take (nat (indexOf ys x)) ys @ drop (nat (indexOf ys x) + 1) ys = remove1 x ys"
      using b by (simp add: splice1_def Let_def min_def)
    have n: "nat (indexOf ys x + 1) = Suc (nat (indexOf ys x))" using b by simp
    show ?thesis
      using False b e by (simp add: splice1_def Let_def min_def n)
  qed
qed

lemma remove1_filter_unsettled:
  assumes "distinct xs" "i \<in> set xs" "i \<notin> set ss"
  shows "remove1 i (filter (\<lambda>k. k \<notin> set ss) xs) = filter (\<lambda>k. k \<notin> set (ss @ [i])) xs"
proof -
  have d: "distinct (filter (\<lambda>k. k \<notin> set ss) xs)" using assms(1) by simp
  have "remove1 i (filter (\<lambda>k. k \<notin> set ss) xs) = filter (\<lambda>k. k \<noteq> i) (filter (\<lambda>k. k \<notin> set ss) xs)"
    using d by (simp add: distinct_remove1_removeAll removeAll_filter_not_eq) metis
  also have "\<dots> = filter (\<lambda>k. k \<notin> set (ss @ [i])) xs"
    by (simp add: conj_commute)
  finally show ?thesis .
qed

lemma loopTop_fields [simp]:
  "app (loopTop n r) = app r" "stopGenerationRef (loopTop n r) = stopGenerationRef r"
  "nextTask (loopTop n r) = nextTask r" "executing (loopTop n r) = executing r"
  "started (loopTop n r) = started r" "settled (loopTop n r) = settled r"
  "waiting (loopTop n r) = waiting r"
  by (simp_all add: loopTop_def)

lemma startTask_fields [simp]:
  "stopGenerationRef (startTask tasks i r) = stopGenerationRef r"
  "nextTask (startTask tasks i r) = nextTask r" "executing (startTask tasks i r) = executing r"
  "started (startTask tasks i r) = started r" "settled (startTask tasks i r) = settled r"
  "pc (startTask tasks i r) = pc r" "rlog (startTask tasks i r) = rlog r"
  by (simp_all add: startTask_def split: prod.splits)

lemma resume_fields [simp]:
  "stopGenerationRef (resume i r) = stopGenerationRef r"
  "nextTask (resume i r) = nextTask r" "executing (resume i r) = executing r"
  "started (resume i r) = started r" "settled (resume i r) = settled r"
  "pc (resume i r) = pc r" "rlog (resume i r) = rlog r"
  by (simp_all add: resume_def split: prod.splits Proc.splits)

lemma loopTop_pc:
  "pc (loopTop n r) = (if nextTask r < n \<and> \<not> stopGenerationRef r then Pacing else Joining (executing r))"
  by (simp add: loopTop_def)

lemma coreInv_loopTop: "coreInv n (loopTop n r) = coreInv n r"
  by (simp add: coreInv_def)

lemma phaseInv_loopTop: "coreInv n r \<Longrightarrow> phaseInv n (loopTop n r)"
  by (auto simp: phaseInv_def coreInv_def loopTop_pc)

lemma boundInv_loopTop: "int (length (executing r)) < c \<Longrightarrow> boundInv c (loopTop n r)"
  by (simp add: boundInv_def loopTop_pc)

lemma startTask_inv:
  "coreInv n (startTask tasks i r) = coreInv n r" "phaseInv n (startTask tasks i r) = phaseInv n r"
  "boundInv c (startTask tasks i r) = boundInv c r"
  by (simp_all add: coreInv_def phaseInv_def boundInv_def split: Phase.splits)

lemma resume_inv:
  "coreInv n (resume i r) = coreInv n r" "phaseInv n (resume i r) = phaseInv n r"
  "boundInv c (resume i r) = boundInv c r"
  by (simp_all add: coreInv_def phaseInv_def boundInv_def split: Phase.splits)

lemma coreInv_distinct:
  assumes "coreInv n r"
  shows "distinct (started r)" "distinct (executing r)"
proof -
  from assms have st: "[0..<nextTask r] = started r"
    and ex: "executing r = filter (\<lambda>i. i \<notin> set (settled r)) (started r)"
    by (simp_all add: coreInv_def)
  show "distinct (started r)" unfolding st [symmetric] by simp
  then show "distinct (executing r)" unfolding ex by simp
qed

lemma coreInv_start:
  assumes "coreInv n r" "nextTask r < n"
  shows "coreInv n (r\<lparr>started := started r @ [nextTask r],
                      executing := executing r @ [nextTask r], nextTask := nextTask r + 1,
                      rlog := l\<rparr>)"
proof -
  from assms(1) have st: "[0..<nextTask r] = started r" and le: "nextTask r \<le> n"
    and ds: "distinct (settled r)" and sub: "set (settled r) \<subseteq> set (started r)"
    and ex: "executing r = filter (\<lambda>i. i \<notin> set (settled r)) (started r)"
    by (simp_all add: coreInv_def)
  have "nextTask r \<notin> set (started r)" unfolding st [symmetric] by simp
  then have fresh: "nextTask r \<notin> set (settled r)" using sub by auto
  show ?thesis
    using st ds sub ex fresh assms(2) by (auto simp: coreInv_def)
qed

lemma tick_core:
  assumes "coreInv (length tasks) r" "phaseInv (length tasks) r"
  shows "coreInv (length tasks) (tick tasks c r) \<and> phaseInv (length tasks) (tick tasks c r)"
proof (cases "pc r")
  case Pacing
  let ?r1 = "r\<lparr>started := started r @ [nextTask r],
              executing := executing r @ [nextTask r], nextTask := nextTask r + 1,
              rlog := rlog r @ [StartTask (nextTask r)]\<rparr>"
  from assms Pacing have lt: "nextTask r < length tasks" by (simp add: phaseInv_def)
  have c1: "coreInv (length tasks) ?r1" by (rule coreInv_start [OF assms(1) lt])
  show ?thesis
  proof (cases "c \<le> int (length (executing ?r1))")
    case True
    then have t: "tick tasks c r = startTask tasks (nextTask r)
                     (?r1\<lparr>pc := Racing (executing ?r1), rlog := rlog ?r1 @ [WaitRace]\<rparr>)"
      using Pacing by (simp add: tick_def Let_def)
    have "coreInv (length tasks) (tick tasks c r)"
      using c1 unfolding t startTask_inv by (simp add: coreInv_def)
    moreover have "phaseInv (length tasks) (tick tasks c r)"
      unfolding t startTask_inv by (simp add: phaseInv_def)
    ultimately show ?thesis by simp
  next
    case False
    then have t: "tick tasks c r = startTask tasks (nextTask r) (loopTop (length tasks) ?r1)"
      using Pacing by (simp add: tick_def Let_def)
    show ?thesis unfolding t startTask_inv using c1 by (simp add: coreInv_loopTop phaseInv_loopTop)
  qed
next
  case (Racing snapshot)
  show ?thesis
  proof (cases "list_ex (\<lambda>e. e \<in> set (settled r)) snapshot")
    case True
    then have t: "tick tasks c r = loopTop (length tasks) r" using Racing by (simp add: tick_def)
    show ?thesis unfolding t using assms(1) by (simp add: coreInv_loopTop phaseInv_loopTop)
  next
    case False
    then have "tick tasks c r = r" using Racing by (simp add: tick_def)
    then show ?thesis using assms by simp
  qed
next
  case (Joining snapshot)
  show ?thesis
  proof (cases "list_all (\<lambda>e. e \<in> set (settled r)) snapshot")
    case True
    then have t: "tick tasks c r = r\<lparr>pc := Finished\<rparr>" using Joining by (simp add: tick_def)
    have "coreInv (length tasks) (tick tasks c r)" using assms(1) unfolding t by (simp add: coreInv_def)
    moreover have "phaseInv (length tasks) (tick tasks c r)"
      using assms(2) Joining True unfolding t by (auto simp: phaseInv_def list_all_iff)
    ultimately show ?thesis by simp
  next
    case False
    then have "tick tasks c r = r" using Joining by (simp add: tick_def)
    then show ?thesis using assms by simp
  qed
next
  case Finished
  then have "tick tasks c r = r" by (simp add: tick_def)
  then show ?thesis using assms by simp
qed

lemma tick_bound:
  assumes "coreInv (length tasks) r" "phaseInv (length tasks) r" "boundInv c r"
  shows "boundInv c (tick tasks c r)"
proof (cases "pc r")
  case Pacing
  let ?r1 = "r\<lparr>started := started r @ [nextTask r],
              executing := executing r @ [nextTask r], nextTask := nextTask r + 1,
              rlog := rlog r @ [StartTask (nextTask r)]\<rparr>"
  from assms Pacing have lt: "nextTask r < length tasks" by (simp add: phaseInv_def)
  have c1: "coreInv (length tasks) ?r1" by (rule coreInv_start [OF assms(1) lt])
  have b: "int (length (executing r)) < c" using assms(3) Pacing by (simp add: boundInv_def)
  have d: "distinct (executing ?r1)" by (rule coreInv_distinct [OF c1])
  show ?thesis
  proof (cases "c \<le> int (length (executing ?r1))")
    case True
    then have t: "tick tasks c r = startTask tasks (nextTask r)
                     (?r1\<lparr>pc := Racing (executing ?r1), rlog := rlog ?r1 @ [WaitRace]\<rparr>)"
      using Pacing by (simp add: tick_def Let_def)
    show ?thesis using b d unfolding t startTask_inv by (simp add: boundInv_def)
  next
    case False
    then have t: "tick tasks c r = startTask tasks (nextTask r) (loopTop (length tasks) ?r1)"
      using Pacing by (simp add: tick_def Let_def)
    have "int (length (executing ?r1)) < c" using False by simp
    then show ?thesis unfolding t startTask_inv by (rule boundInv_loopTop)
  qed
next
  case (Racing snapshot)
  show ?thesis
  proof (cases "list_ex (\<lambda>e. e \<in> set (settled r)) snapshot")
    case True
    then obtain e where e: "e \<in> set snapshot" "e \<in> set (settled r)" by (auto simp: list_ex_iff)
    have t: "tick tasks c r = loopTop (length tasks) r" using Racing True by (simp add: tick_def)
    from assms(3) Racing have s: "set (executing r) \<subseteq> set snapshot" "int (length snapshot) \<le> c"
      "distinct snapshot" by (simp_all add: boundInv_def)
    have ne: "e \<notin> set (executing r)" using assms(1) e(2) by (simp add: coreInv_def)
    have de: "distinct (executing r)" by (rule coreInv_distinct [OF assms(1)])
    have "set (executing r) \<subset> set snapshot" using s(1) e(1) ne by auto
    then have "card (set (executing r)) < card (set snapshot)" by (simp add: psubset_card_mono)
    then have "length (executing r) < length snapshot"
      using de s(3) by (simp add: distinct_card)
    then have "int (length (executing r)) < c" using s(2) by simp
    then show ?thesis unfolding t by (rule boundInv_loopTop)
  next
    case False
    then have "tick tasks c r = r" using Racing by (simp add: tick_def)
    then show ?thesis using assms by simp
  qed
next
  case (Joining snapshot)
  show ?thesis
  proof (cases "list_all (\<lambda>e. e \<in> set (settled r)) snapshot")
    case True
    then have t: "tick tasks c r = r\<lparr>pc := Finished\<rparr>" using Joining by (simp add: tick_def)
    show ?thesis using assms(3) Joining unfolding t by (simp add: boundInv_def)
  next
    case False
    then have "tick tasks c r = r" using Joining by (simp add: tick_def)
    then show ?thesis using assms by simp
  qed
next
  case Finished
  then have "tick tasks c r = r" by (simp add: tick_def)
  then show ?thesis using assms by simp
qed

lemma settle_executing:
  assumes "coreInv n r" "i \<in> set (started r)" "i \<notin> set (settled r)"
  shows "splice1 (executing r) (indexOf (executing r) i) = filter (\<lambda>k. k \<notin> set (settled r @ [i])) (started r)"
proof -
  have ex: "executing r = filter (\<lambda>k. k \<notin> set (settled r)) (started r)"
    using assms(1) by (simp add: coreInv_def)
  have d: "distinct (started r)" by (rule coreInv_distinct [OF assms(1)])
  have m: "i \<in> set (executing r)" using assms(2,3) ex by simp
  show ?thesis
    using splice1_indexOf [OF m] remove1_filter_unsettled [OF d assms(2,3)] ex by simp
qed

lemma settle_unfold:
  assumes "coreInv n r" "i \<in> set (started r) \<and> i \<notin> set (settled r) \<and> waiting r i = Done"
  shows "settle i r = r\<lparr>settled := settled r @ [i],
             executing := filter (\<lambda>k. k \<notin> set (settled r @ [i])) (started r)\<rparr>"
  using assms(2) settle_executing [OF assms(1), of i] by (simp add: settle_def)

lemma settle_skip:
  "\<not> (i \<in> set (started r) \<and> i \<notin> set (settled r) \<and> waiting r i = Done) \<Longrightarrow> settle i r = r"
  by (auto simp: settle_def split: Proc.splits)

lemma settle_core:
  assumes "coreInv n r" "phaseInv n r"
  shows "coreInv n (settle i r) \<and> phaseInv n (settle i r)"
proof (cases "i \<in> set (started r) \<and> i \<notin> set (settled r) \<and> waiting r i = Done")
  case False
  then show ?thesis using assms by (simp add: settle_skip)
next
  case True
  note t = settle_unfold [OF assms(1) True]
  have "coreInv n (settle i r)" using assms(1) True unfolding t by (auto simp: coreInv_def)
  moreover have "phaseInv n (settle i r)"
    using assms(2) unfolding t by (auto simp: phaseInv_def split: Phase.splits)
  ultimately show ?thesis by simp
qed

lemma settle_bound:
  assumes "coreInv n r" "boundInv c r"
  shows "boundInv c (settle i r)"
proof (cases "i \<in> set (started r) \<and> i \<notin> set (settled r) \<and> waiting r i = Done")
  case False
  then show ?thesis using assms by (simp add: settle_skip)
next
  case True
  let ?ex = "filter (\<lambda>k. k \<notin> set (settled r @ [i])) (started r)"
  note t = settle_unfold [OF assms(1) True]
  have ex: "executing r = filter (\<lambda>k. k \<notin> set (settled r)) (started r)"
    using assms(1) by (simp add: coreInv_def)
  have sub: "set ?ex \<subseteq> set (executing r)" unfolding ex by auto
  have len: "length ?ex \<le> length (executing r)"
  proof -
    have "?ex = filter (\<lambda>k. k \<noteq> i) (executing r)" unfolding ex by (simp add: conj_commute)
    then show ?thesis by simp
  qed
  show ?thesis
    using assms(2) sub len unfolding t by (auto simp: boundInv_def split: Phase.splits)
qed

lemma handleStop_fields [simp]:
  "nextTask (handleStop r) = nextTask r" "executing (handleStop r) = executing r"
  "started (handleStop r) = started r" "settled (handleStop r) = settled r"
  "waiting (handleStop r) = waiting r" "pc (handleStop r) = pc r" "rlog (handleStop r) = rlog r"
  "stopGenerationRef (handleStop r) = True"
  by (simp_all add: handleStop_def)

lemma handleStop_inv:
  "coreInv n (handleStop r) = coreInv n r" "phaseInv n (handleStop r) = phaseInv n r"
  "boundInv c (handleStop r) = boundInv c r"
  by (simp_all add: coreInv_def phaseInv_def boundInv_def split: Phase.splits)

lemma clearStop_fields [simp]:
  "app (clearStop r) = app r"
  "nextTask (clearStop r) = nextTask r" "executing (clearStop r) = executing r"
  "started (clearStop r) = started r" "settled (clearStop r) = settled r"
  "waiting (clearStop r) = waiting r" "pc (clearStop r) = pc r" "rlog (clearStop r) = rlog r"
  "stopGenerationRef (clearStop r) = False"
  by (simp_all add: clearStop_def)

lemma clearStop_inv:
  "coreInv n (clearStop r) = coreInv n r" "phaseInv n (clearStop r) = phaseInv n r"
  "boundInv c (clearStop r) = boundInv c r"
  by (simp_all add: coreInv_def phaseInv_def boundInv_def split: Phase.splits)

lemma step_core:
  assumes "coreInv (length tasks) r" "phaseInv (length tasks) r"
  shows "coreInv (length tasks) (step tasks c r e) \<and> phaseInv (length tasks) (step tasks c r e)"
  using assms by (cases e) (simp_all add: tick_core settle_core resume_inv handleStop_inv clearStop_inv)

lemma step_bound:
  assumes "coreInv (length tasks) r" "phaseInv (length tasks) r" "boundInv c r"
  shows "boundInv c (step tasks c r e)"
  using assms by (cases e) (simp_all add: tick_bound settle_bound resume_inv handleStop_inv clearStop_inv)

lemma run_snoc:
  "runConcurrentTasks tasks c flag s (schedule @ [e]) =
     step tasks c (runConcurrentTasks tasks c flag s schedule) e"
  by (simp add: runConcurrentTasks_def)


lemma enter_inv:
  "coreInv n (loopTop n (enterRunner flag s))" "phaseInv n (loopTop n (enterRunner flag s))"
  "1 \<le> c \<Longrightarrow> boundInv c (loopTop n (enterRunner flag s))"
proof -
  have c: "coreInv n (enterRunner flag s)" by (simp add: coreInv_def enterRunner_def)
  show "coreInv n (loopTop n (enterRunner flag s))" using c by (simp add: coreInv_loopTop)
  show "phaseInv n (loopTop n (enterRunner flag s))" using c by (rule phaseInv_loopTop)
  show "1 \<le> c \<Longrightarrow> boundInv c (loopTop n (enterRunner flag s))"
    by (rule boundInv_loopTop) (simp add: enterRunner_def)
qed

lemma run_core:
  "coreInv (length tasks) (runConcurrentTasks tasks c flag s schedule)
   \<and> phaseInv (length tasks) (runConcurrentTasks tasks c flag s schedule)"
proof (induction schedule rule: rev_induct)
  case Nil
  show ?case using enter_inv(1,2) by (simp add: runConcurrentTasks_def)
next
  case (snoc e schedule)
  then show ?case unfolding run_snoc by (intro step_core) simp_all
qed

lemma run_bound:
  assumes "1 \<le> c"
  shows "boundInv c (runConcurrentTasks tasks c flag s schedule)"
proof (induction schedule rule: rev_induct)
  case Nil
  show ?case using enter_inv(3) assms by (simp add: runConcurrentTasks_def)
next
  case (snoc e schedule)
  show ?case unfolding run_snoc using run_core snoc by (intro step_bound) simp_all
qed

lemma boundInv_length:
  assumes "coreInv n r" "boundInv c r"
  shows "int (length (executing r)) \<le> c"
proof (cases "pc r")
  case (Racing snapshot)
  with assms(2) have s: "set (executing r) \<subseteq> set snapshot" "int (length snapshot) \<le> c" "distinct snapshot"
    by (simp_all add: boundInv_def)
  have "distinct (executing r)" by (rule coreInv_distinct [OF assms(1)])
  then have "length (executing r) = card (set (executing r))" by (simp add: distinct_card)
  also have "\<dots> \<le> card (set snapshot)" using s(1) by (simp add: card_mono)
  also have "\<dots> = length snapshot" using s(3) by (simp add: distinct_card)
  finally show ?thesis using s(2) by simp
qed (use assms(2) in \<open>simp_all add: boundInv_def\<close>)

lemma unresolved_executing: "coreInv n r \<Longrightarrow> unresolved r = executing r"
  by (simp add: unresolved_def coreInv_def)

section \<open>The claims about the runner\<close>

text \<open>
  C3. For every task list, every concurrency ceiling of at least one task, every flag and state
  the runner is entered with, and every schedule of timer ticks, task steps and completions,
  stop requests and flag resets: after the schedule (so at every point of every run) the started tasks that have not
  settled number at most the ceiling. The ceiling is an integer, as at every call in the
  source.
\<close>

theorem C3_concurrency_ceiling:
  assumes "1 \<le> concurrency"
  shows "int (length (unresolved (runConcurrentTasks tasks concurrency flag s schedule))) \<le> concurrency"
proof -
  have c: "coreInv (length tasks) (runConcurrentTasks tasks concurrency flag s schedule)"
    using run_core by simp
  have b: "boundInv concurrency (runConcurrentTasks tasks concurrency flag s schedule)"
    by (rule run_bound [OF assms])
  show ?thesis using boundInv_length [OF c b] unresolved_executing [OF c] by simp
qed

theorem C3_concurrency_ceiling_witness:
  "int (length (unresolved (runConcurrentTasks [taskEnd, taskEnd, taskEnd] 2 False sampleApp
      [Tick, Tick, Stop, Settle 1, Clear, Tick, Tick]))) \<le> 2"
proof -
  have h: "(1::int) \<le> 2" by simp
  show ?thesis by (rule C3_concurrency_ceiling [OF h])
qed

lemma settle_flag [simp]: "stopGenerationRef (settle i r) = stopGenerationRef r"
  by (simp add: settle_def split: Proc.splits)










lemmas run_eval = runConcurrentTasks_def enterRunner_def loopTop_def tick_def startTask_def resume_def
  settle_def handleStop_def clearStop_def taskEnd_def Let_def splice1_def




lemma pacedRev_tail: "pacedRev (e # es) \<Longrightarrow> pacedRev es"
  by simp

lemma pacedRev_start:
  assumes "pacedRev (StartTask i # es)"
  shows "\<exists>es'. es = WaitDelay 1000 # CheckStop False # es'"
proof -
  from assms have t: "take 2 es = [WaitDelay 1000, CheckStop False]" by simp
  have "es = take 2 es @ drop 2 es" by simp
  then have "es = WaitDelay 1000 # CheckStop False # drop 2 es" unfolding t by simp
  then show ?thesis by blast
qed

lemma pacedRev_decomp:
  "pacedRev (xs @ StartTask i # ys) \<Longrightarrow> \<exists>ys'. ys = WaitDelay 1000 # CheckStop False # ys'"
proof (induction xs)
  case Nil
  then show ?case using pacedRev_start by simp
next
  case (Cons x xs)
  then show ?case using pacedRev_tail by simp
qed

lemma pacedRev_other:
  "pacedRev es \<Longrightarrow> \<forall>i. e \<noteq> StartTask i \<Longrightarrow> pacedRev (e # es)"
  by (cases e) auto

lemma logInv_loopTop:
  assumes "pacedRev (rev (rlog r))" "set (started r) = {i. StartTask i \<in> set (rlog r)}"
    "\<forall>ms. WaitDelay ms \<in> set (rlog r) \<longrightarrow> ms = 1000"
  shows "logInv (loopTop n r)"
  using assms by (auto simp: logInv_def loopTop_def pacedRev_other)

lemma logInv_startTask: "logInv (startTask tasks i r) = logInv r"
  by (simp add: logInv_def)

lemma logInv_tick:
  assumes "logInv r"
  shows "logInv (tick tasks c r)"
proof (cases "pc r")
  case Pacing
  let ?r1 = "r\<lparr>started := started r @ [nextTask r],
              executing := executing r @ [nextTask r], nextTask := nextTask r + 1,
              rlog := rlog r @ [StartTask (nextTask r)]\<rparr>"
  from assms Pacing have es: "take 2 (rev (rlog r)) = [WaitDelay 1000, CheckStop False]"
    by (simp add: logInv_def)
  from assms have p: "pacedRev (rev (rlog r))" and st: "set (started r) = {i. StartTask i \<in> set (rlog r)}"
    and w: "\<forall>ms. WaitDelay ms \<in> set (rlog r) \<longrightarrow> ms = 1000"
    by (simp_all add: logInv_def)
  have p1: "pacedRev (rev (rlog ?r1))" using p es by simp
  have st1: "set (started ?r1) = {i. StartTask i \<in> set (rlog ?r1)}" using st by auto
  have w1: "\<forall>ms. WaitDelay ms \<in> set (rlog ?r1) \<longrightarrow> ms = 1000" using w by simp
  show ?thesis
  proof (cases "c \<le> int (length (executing ?r1))")
    case True
    then have t: "tick tasks c r = startTask tasks (nextTask r)
                     (?r1\<lparr>pc := Racing (executing ?r1), rlog := rlog ?r1 @ [WaitRace]\<rparr>)"
      using Pacing by (simp add: tick_def Let_def)
    show ?thesis unfolding t logInv_startTask using p1 st1 w1 by (auto simp: logInv_def)
  next
    case False
    then have t: "tick tasks c r = startTask tasks (nextTask r) (loopTop (length tasks) ?r1)"
      using Pacing by (simp add: tick_def Let_def)
    show ?thesis unfolding t logInv_startTask by (rule logInv_loopTop [OF p1 st1 w1])
  qed
next
  case (Racing snapshot)
  from assms have p: "pacedRev (rev (rlog r))" and st: "set (started r) = {i. StartTask i \<in> set (rlog r)}"
    and w: "\<forall>ms. WaitDelay ms \<in> set (rlog r) \<longrightarrow> ms = 1000"
    by (simp_all add: logInv_def)
  show ?thesis
  proof (cases "list_ex (\<lambda>e. e \<in> set (settled r)) snapshot")
    case True
    then have t: "tick tasks c r = loopTop (length tasks) r" using Racing by (simp add: tick_def)
    show ?thesis unfolding t by (rule logInv_loopTop [OF p st w])
  next
    case False
    then have "tick tasks c r = r" using Racing by (simp add: tick_def)
    then show ?thesis using assms by simp
  qed
next
  case (Joining snapshot)
  then show ?thesis using assms by (auto simp: tick_def logInv_def)
next
  case Finished
  then show ?thesis using assms by (simp add: tick_def)
qed

lemma logInv_step: "logInv r \<Longrightarrow> logInv (step tasks c r e)"
proof (cases e)
  case Tick
  assume "logInv r"
  then show ?thesis using Tick by (simp add: logInv_tick)
next
  case (Resume i)
  assume "logInv r"
  then show ?thesis using Resume by (simp add: logInv_def)
next
  case (Settle i)
  assume "logInv r"
  then show ?thesis using Settle by (auto simp: settle_def logInv_def split: Proc.splits)
next
  case Stop
  assume "logInv r"
  then show ?thesis using Stop by (simp add: logInv_def)
next
  case Clear
  assume "logInv r"
  then show ?thesis using Clear by (simp add: logInv_def)
qed

lemma logInv_run: "logInv (runConcurrentTasks tasks c flag s schedule)"
proof (induction schedule rule: rev_induct)
  case Nil
  show ?case unfolding runConcurrentTasks_def foldl.simps
    by (rule logInv_loopTop) (simp_all add: enterRunner_def)
next
  case (snoc e schedule)
  then show ?case unfolding run_snoc by (rule logInv_step)
qed

text \<open>
  C6. In every run, for every task the runner starts, the very first included: the start comes
  straight after a \<open>delay(1000)\<close>, which comes straight after the cancellation check for
  that task, which found the flag clear. Every started task has such a start entry, and
  every pacing delay of the runner is 1000 milliseconds.
\<close>

theorem C6_pacing_before_every_start:
  "(\<forall>pre i post. rlog (runConcurrentTasks tasks concurrency flag s schedule) = pre @ StartTask i # post
        \<longrightarrow> (\<exists>pre'. pre = pre' @ [CheckStop False, WaitDelay 1000]))
   \<and> set (started (runConcurrentTasks tasks concurrency flag s schedule))
        = {i. StartTask i \<in> set (rlog (runConcurrentTasks tasks concurrency flag s schedule))}
   \<and> (\<forall>ms. WaitDelay ms \<in> set (rlog (runConcurrentTasks tasks concurrency flag s schedule)) \<longrightarrow> ms = 1000)"
proof -
  let ?r = "runConcurrentTasks tasks concurrency flag s schedule"
  have inv: "logInv ?r" by (rule logInv_run)
  have "\<exists>pre'. pre = pre' @ [CheckStop False, WaitDelay 1000]"
    if d: "rlog ?r = pre @ StartTask i # post" for pre i post
  proof -
    have "rev (rlog ?r) = rev post @ StartTask i # rev pre" using d by simp
    moreover have "pacedRev (rev (rlog ?r))" using inv by (simp add: logInv_def)
    ultimately have "pacedRev (rev post @ StartTask i # rev pre)" by simp
    then obtain ys where "rev pre = WaitDelay 1000 # CheckStop False # ys"
      using pacedRev_decomp by blast
    then have "pre = rev (WaitDelay 1000 # CheckStop False # ys)" by (simp add: rev_swap)
    then have "pre = rev ys @ [CheckStop False, WaitDelay 1000]" by simp
    then show ?thesis by blast
  qed
  then show ?thesis using inv by (simp add: logInv_def)
qed

theorem C6_pacing_before_every_start_witness:
  "rlog (runConcurrentTasks [taskEnd, taskEnd] 2 False sampleApp [Tick, Tick])
     = [CheckStop False, WaitDelay 1000] @ StartTask 0 #
       [CheckStop False, WaitDelay 1000, StartTask 1, WaitRace]
   \<and> (\<exists>pre'. [CheckStop False, WaitDelay 1000] = pre' @ [CheckStop False, WaitDelay 1000])"
proof -
  have l: "rlog (runConcurrentTasks [taskEnd, taskEnd] 2 False sampleApp [Tick, Tick])
     = [CheckStop False, WaitDelay 1000] @ StartTask 0 #
       [CheckStop False, WaitDelay 1000, StartTask 1, WaitRace]"
    by (simp add: run_eval)
  from C6_pacing_before_every_start [of "[taskEnd, taskEnd]" 2 False sampleApp "[Tick, Tick]"]
  have "\<forall>pre i post. rlog (runConcurrentTasks [taskEnd, taskEnd] 2 False sampleApp [Tick, Tick])
          = pre @ StartTask i # post \<longrightarrow> (\<exists>pre'. pre = pre' @ [CheckStop False, WaitDelay 1000])"
    by blast
  with l show ?thesis by blast
qed

end
